theory Spec2Isabelle
  imports Main
begin

section \<open>C strings and buffers\<close>

text \<open>
  A \<^typ>\<open>string\<close> is a sequence of bytes in memory. The C string that starts at such a
  sequence is its part before the first NUL byte; the end of the list stands for the
  terminator that the C code always finds (every buffer of the program is terminated
  before it is read). A pointer that may be \<open>NULL\<close> is a \<^typ>\<open>string option\<close>.
  Sizes are the \<open>int\<close> values of the source; all of them stay far below \<open>2^31\<close>.
\<close>

definition NUL :: char where
  "NUL = CHR 0x00"

definition CR :: char where
  "CR = CHR 0x0D"

definition LF :: char where
  "LF = CHR 0x0A"

definition SEP :: char where
  "SEP = CHR ''|''"

definition MAX_NICK :: int where
  "MAX_NICK = 32"

definition MAX_TEXT :: int where
  "MAX_TEXT = 512"

definition MAX_PKT :: int where
  "MAX_PKT = 768"

definition cstr :: "string \<Rightarrow> string" where
  "cstr bytes = takeWhile (\<lambda>c. c \<noteq> NUL) bytes"

text \<open>
  \<open>snprintf(out, size, fmt, ...)\<close> with \<open>size > 0\<close>: the formatted text, cut to
  \<open>size - 1\<close> bytes (the last byte of the buffer holds the terminator).
\<close>

definition snprintf_s :: "int \<Rightarrow> string \<Rightarrow> string" where
  "snprintf_s sz formatted = take (nat (sz - 1)) formatted"

text \<open>\<open>strchr(p, c)\<close> for \<open>c \<noteq> NUL\<close>: the offset of the first \<open>c\<close> in the C string, if any.\<close>

fun strchr :: "string \<Rightarrow> char \<Rightarrow> nat option" where
  "strchr [] c = None"
| "strchr (x # xs) c = (if x = c then Some 0 else map_option Suc (strchr xs c))"

section \<open>Packet codec (omnimsg.c)\<close>

text \<open>
  The sanitising loop of \<open>format_packet\<close>:
  \<^verbatim>\<open>for (i = 0; text[i] && j < (int)sizeof(tmp) - 1; i++) { ... tmp[j++] = c; }\<close>
  The first argument is the rest of \<open>text\<close> from index \<open>i\<close>, the second the bytes
  \<open>tmp[0..j-1]\<close> written so far.
\<close>

fun strip_loop :: "string \<Rightarrow> string \<Rightarrow> string" where
  "strip_loop [] tmp = tmp"
| "strip_loop (c # cs) tmp =
     (if c = NUL \<or> \<not> int (length tmp) < MAX_TEXT - 1 then tmp
      else if c = CR \<or> c = LF then strip_loop cs tmp
      else strip_loop cs (tmp @ [c]))"

text \<open>
  \<open>format_packet(out, out_size, nick, text)\<close>. The result is the buffer \<open>out\<close> after the
  call (\<open>None\<close> for the \<open>NULL\<close> pointer, which stays \<open>NULL\<close>).
\<close>

definition format_packet ::
    "string option \<Rightarrow> int \<Rightarrow> string option \<Rightarrow> string option \<Rightarrow> string option" where
  "format_packet out out_size nick text =
     (if out = None \<or> out_size \<le> 0 then out
      else
        let nick1 = (case nick of None \<Rightarrow> ''anon'' | Some n \<Rightarrow> n);
            text1 = (case text of None \<Rightarrow> [] | Some t \<Rightarrow> t);
            tmp = strip_loop text1 []
        in Some (snprintf_s out_size (''OM1|'' @ cstr nick1 @ ''|'' @ cstr tmp)))"

text \<open>
  \<open>parse_packet\<close> returns \<open>-1\<close> at four places; the model names them. An output buffer
  is given by its size, and a \<open>NULL\<close> output buffer is refused by the same guard as a
  size that is not positive.
\<close>

datatype parse_error = Bad_args | Bad_tag | No_separator | Empty_nick

definition parse_packet ::
    "string option \<Rightarrow> int \<Rightarrow> int \<Rightarrow> parse_error + (string \<times> string)" where
  "parse_packet pkt nick_out_size text_out_size =
     (case pkt of
        None \<Rightarrow> Inl Bad_args
      | Some bytes \<Rightarrow>
          if nick_out_size \<le> 0 \<or> text_out_size \<le> 0 then Inl Bad_args
          else if take 4 (cstr bytes) \<noteq> ''OM1|'' then Inl Bad_tag
          else
            let p = drop 4 (cstr bytes) in
            (case strchr p SEP of
               None \<Rightarrow> Inl No_separator
             | Some bar \<Rightarrow>
                 if int bar \<le> 0 then Inl Empty_nick
                 else
                   let nlen = (if int bar \<ge> nick_out_size then nick_out_size - 1 else int bar);
                       nick_out = take (nat nlen) p;
                       p2 = drop (bar + 1) p;
                       tlen = (if int (length p2) \<ge> text_out_size
                               then text_out_size - 1 else int (length p2));
                       text_out = take (nat tlen) p2
                   in Inr (nick_out, text_out)))"

section \<open>Non-blocking receive (net_compat.h)\<close>

text \<open>
  Modelled from the spec: the error codes that mean "operation would block". Their values
  come from the system headers (\<open>errno.h\<close>, \<open>winsock2.h\<close>), which are not part of the
  repository; the model takes the Linux and Winsock values. The general theorems below
  do not depend on the numbers, only on which code a failed call reports.
\<close>

definition EAGAIN :: int where
  "EAGAIN = 11"

definition EWOULDBLOCK :: int where
  "EWOULDBLOCK = 11"

definition WSAEWOULDBLOCK :: int where
  "WSAEWOULDBLOCK = 10035"

text \<open>
  The build target selects the branches of the preprocessor conditionals. \<open>Win32\<close> and
  \<open>Posix\<close> share the flag-based receive and the polling main loop; the \<open>__human68k__\<close>
  branch of the receive helper is a definition of its own.
\<close>

datatype platform = Win32 | Posix

text \<open>
  What one call of \<open>recvfrom\<close> does: it fails (\<open>n < 0\<close>) with an error code, or it
  delivers one datagram, its sender address and its payload. The payload is cut to the
  size of the buffer, and \<open>n\<close> is the number of bytes stored.
\<close>

datatype sys_recv = Recv_fail int | Recv_data nat string

datatype syscall = Call_getsockopt | Call_recvfrom

record recv_out =
  n_ret :: int
  buf_ret :: string
  from_ret :: nat
  calls :: "syscall list"

definition recv_ret :: "int \<Rightarrow> syscall list \<Rightarrow> recv_out" where
  "recv_ret n cs = \<lparr>n_ret = n, buf_ret = [], from_ret = 0, calls = cs\<rparr>"

text \<open>
  The \<open>#else\<close> branch of \<open>udp_recvfrom_nb\<close> (lines 133 to 157): the socket is in
  non-blocking mode. The buffer and the address are results; they are meaningful only
  when the return value is positive. The pointers are those of the caller's local
  variables, so of the guard of line 106 the check of the size remains.
\<close>

definition udp_recvfrom_nb :: "platform \<Rightarrow> int \<Rightarrow> sys_recv \<Rightarrow> recv_out" where
  "udp_recvfrom_nb pf buf_size r =
     (if buf_size \<le> 0 then recv_ret (- 1) []
      else
        (case r of
           Recv_fail err \<Rightarrow>
             (case pf of
                Win32 \<Rightarrow>
                  if err = WSAEWOULDBLOCK then recv_ret 0 [Call_recvfrom]
                  else recv_ret (- 1) [Call_recvfrom]
              | Posix \<Rightarrow>
                  if err = EWOULDBLOCK \<or> err = EAGAIN then recv_ret 0 [Call_recvfrom]
                  else recv_ret (- 1) [Call_recvfrom])
         | Recv_data sender payload \<Rightarrow>
             let got = take (nat buf_size) payload; n = int (length got) in
             if n = 0 then recv_ret 0 [Call_recvfrom]
             else \<lparr>n_ret = n, buf_ret = got, from_ret = sender, calls = [Call_recvfrom]\<rparr>))"

text \<open>
  The \<open>__human68k__\<close> branch (lines 110 to 132): \<open>getsockopt(SO_SOCKLENRECV)\<close> answers
  \<open>(rc, avail)\<close>; \<open>recvfrom\<close> is called only when bytes are reported. The second and
  third argument are what the two system calls answer if they are called; \<open>calls\<close> lists
  the calls that were made.
\<close>

definition udp_recvfrom_nb_human68k :: "int \<Rightarrow> int \<times> int \<Rightarrow> sys_recv \<Rightarrow> recv_out" where
  "udp_recvfrom_nb_human68k buf_size sockopt r =
     (if buf_size \<le> 0 then recv_ret (- 1) []
      else
        (case sockopt of
           (rc, avail) \<Rightarrow>
             if rc \<noteq> 0 then recv_ret 0 [Call_getsockopt]
             else if avail \<le> 0 then recv_ret 0 [Call_getsockopt]
             else
               (case r of
                  Recv_fail err \<Rightarrow> recv_ret (- 1) [Call_getsockopt, Call_recvfrom]
                | Recv_data sender payload \<Rightarrow>
                    let got = take (nat buf_size) payload; n = int (length got) in
                    if n \<le> 0 then recv_ret (- 1) [Call_getsockopt, Call_recvfrom]
                    else \<lparr>n_ret = n, buf_ret = got, from_ret = sender,
                           calls = [Call_getsockopt, Call_recvfrom]\<rparr>)))"

text \<open>
  The meaning of the return value, as the comment above \<open>udp_recvfrom_nb\<close> gives it:
  \<open>>0\<close> bytes received, \<open>0\<close> no data available (would block), \<open>-1\<close> error.
\<close>

datatype recv_outcome = Received nat string | WouldBlock | IoError

definition outcome :: "recv_out \<Rightarrow> recv_outcome" where
  "outcome res =
     (if n_ret res > 0 then Received (from_ret res) (buf_ret res)
      else if n_ret res = 0 then WouldBlock
      else IoError)"

section \<open>Line input (omnimsg.c)\<close>

text \<open>What one call of \<open>read(0, tmp, sizeof(tmp))\<close> does: it fails with an \<open>errno\<close>, or
  it returns the bytes that were available, at most 128 of them.\<close>

datatype sys_read = Read_fail int | Read_data string

text \<open>
  The scanning loop of the POSIX branch of \<open>stdin_poll_line\<close> (lines 290 to 305). The
  arguments are the size of \<open>out\<close>, the bytes of \<open>tmp\<close> from index \<open>i\<close> on, and the
  static accumulator \<open>buf[0..len-1]\<close>. The result is the return value, the line written
  to \<open>out\<close> (empty when nothing is written) and the accumulator after the call.
\<close>

fun scan_chunk :: "int \<Rightarrow> string \<Rightarrow> string \<Rightarrow> int \<times> string \<times> string" where
  "scan_chunk out_size [] buf = (0, [], buf)"
| "scan_chunk out_size (c # cs) buf =
     (if c = LF then (1, snprintf_s out_size (cstr buf), [])
      else if c = CR then scan_chunk out_size cs buf
      else if int (length buf) < MAX_TEXT - 1 then scan_chunk out_size cs (buf @ [c])
      else scan_chunk out_size cs buf)"

definition stdin_poll_line_posix :: "int \<Rightarrow> string \<Rightarrow> sys_read \<Rightarrow> int \<times> string \<times> string" where
  "stdin_poll_line_posix out_size buf r =
     (case r of
        Read_fail err \<Rightarrow>
          if err = EWOULDBLOCK \<or> err = EAGAIN then (0, [], buf) else (- 1, [], buf)
      | Read_data bytes \<Rightarrow>
          let tmp = take 128 bytes in
          if tmp = [] then (0, [], buf) else scan_chunk out_size tmp buf)"

text \<open>
  The Windows branch (lines 239 to 273): \<open>_kbhit()\<close> holds while the console has a key
  pending, \<open>_getch()\<close> takes the first one. The second argument is the keys pending in
  the console, the fourth component of the result the keys left there. The echo to the
  terminal is not part of the model.
\<close>

fun stdin_poll_line_win32 ::
    "int \<Rightarrow> int list \<Rightarrow> string \<Rightarrow> int \<times> string \<times> string \<times> int list" where
  "stdin_poll_line_win32 out_size [] buf = (0, [], buf, [])"
| "stdin_poll_line_win32 out_size (c # keys) buf =
     (if c = 3 then (- 2, [], buf, keys)
      else if c = 13 \<or> c = 10 then (1, snprintf_s out_size (cstr buf), [], keys)
      else if c = 8 then
        (if length buf > 0 then stdin_poll_line_win32 out_size keys (butlast buf)
         else stdin_poll_line_win32 out_size keys buf)
      else if c \<ge> 32 \<and> c \<le> 126 then
        (if int (length buf) < MAX_TEXT - 1
         then stdin_poll_line_win32 out_size keys (buf @ [char_of c])
         else stdin_poll_line_win32 out_size keys buf)
      else stdin_poll_line_win32 out_size keys buf)"

section \<open>Interaction loop (main, lines 441 to 542)\<close>

text \<open>
  The environment of the loop is scripted: \<open>rxq\<close> holds what the successive calls of
  \<open>recvfrom\<close> will answer, \<open>stdin_rd\<close> what the successive calls of \<open>read\<close> on the
  standard input will answer, \<open>console\<close> the keys pending in the Windows console, and
  \<open>txrc\<close> the return values of the successive calls of \<open>sendto\<close>. When a script is
  used up, nothing more arrives: \<open>recvfrom\<close> and \<open>read\<close> fail with "would block", and
  \<open>sendto\<close> sends all bytes. \<open>linebuf\<close> is the static accumulator of \<open>stdin_poll_line\<close>,
  and \<open>log\<close> is what the program has done so far, in order.
\<close>

datatype event =
    Recv_failed
  | Shown nat string string
  | Shown_raw nat string
  | Polled int
  | Stdin_failed
  | Help_shown
  | Prompt
  | Sent string int
  | Slept int

datatype ctl = Break | Continue

record world =
  rxq :: "sys_recv list"
  stdin_rd :: "sys_read list"
  console :: "int list"
  linebuf :: string
  txrc :: "int list"
  log :: "event list"

definition idle_recv :: "platform \<Rightarrow> sys_recv" where
  "idle_recv pf = (case pf of Win32 \<Rightarrow> Recv_fail WSAEWOULDBLOCK | Posix \<Rightarrow> Recv_fail EWOULDBLOCK)"

text \<open>
  Lines 458 to 468: a received datagram is shown decoded, or raw when it does not decode.
  \<open>buf\<close> holds the received bytes; the source terminates them with \<open>buf[n] = '\0'\<close>.
\<close>

definition render :: "nat \<Rightarrow> string \<Rightarrow> event" where
  "render sender buf =
     (case parse_packet (Some buf) MAX_NICK MAX_TEXT of
        Inr (from_nick, from_text) \<Rightarrow> Shown sender from_nick from_text
      | Inl e \<Rightarrow> Shown_raw sender (cstr buf))"

text \<open>
  One pass through the body of the drain loop (lines 444 to 468), given the answer of
  \<open>recvfrom\<close>: the events of the pass, and whether the loop goes on.
\<close>

definition recv_step :: "platform \<Rightarrow> sys_recv \<Rightarrow> event list \<times> bool" where
  "recv_step pf r =
     (let res = udp_recvfrom_nb pf (MAX_PKT - 1) r; n = n_ret res in
      if n < 0 then ([Recv_failed], False)
      else if n = 0 then ([], False)
      else ([render (from_ret res) (buf_ret res)], True))"

fun drain :: "platform \<Rightarrow> sys_recv list \<Rightarrow> event list \<times> sys_recv list" where
  "drain pf [] = (fst (recv_step pf (idle_recv pf)), [])"
| "drain pf (r # rs) =
     (case recv_step pf r of
        (evs, False) \<Rightarrow> (evs, rs)
      | (evs, True) \<Rightarrow> (case drain pf rs of (evs2, rest) \<Rightarrow> (evs @ evs2, rest)))"

definition drain_phase :: "platform \<Rightarrow> world \<Rightarrow> world" where
  "drain_phase pf w =
     (case drain pf (rxq w) of (evs, rest) \<Rightarrow> w\<lparr>rxq := rest, log := log w @ evs\<rparr>)"

text \<open>The call \<open>stdin_poll_line(line, sizeof(line))\<close> of line 511, on the platform's input.\<close>

definition poll_input :: "platform \<Rightarrow> world \<Rightarrow> int \<times> string \<times> world" where
  "poll_input pf w =
     (case pf of
        Posix \<Rightarrow>
          (let (r, rest) = (case stdin_rd w of [] \<Rightarrow> (Read_fail EAGAIN, []) | x # xs \<Rightarrow> (x, xs)) in
           case stdin_poll_line_posix MAX_TEXT (linebuf w) r of
             (rv, line, buf) \<Rightarrow>
               (rv, line, w\<lparr>stdin_rd := rest, linebuf := buf, log := log w @ [Polled rv]\<rparr>))
      | Win32 \<Rightarrow>
          (case stdin_poll_line_win32 MAX_TEXT (console w) (linebuf w) of
             (rv, line, buf, keys) \<Rightarrow>
               (rv, line, w\<lparr>console := keys, linebuf := buf, log := log w @ [Polled rv]\<rparr>)))"

definition sendto :: "string \<Rightarrow> world \<Rightarrow> world" where
  "sendto bytes w =
     (case txrc w of
        [] \<Rightarrow> w\<lparr>log := log w @ [Sent bytes (int (length bytes))]\<rparr>
      | rc # rcs \<Rightarrow> w\<lparr>txrc := rcs, log := log w @ [Sent bytes rc]\<rparr>)"

definition emit :: "event list \<Rightarrow> world \<Rightarrow> world" where
  "emit evs w = w\<lparr>log := log w @ evs\<rparr>"

text \<open>
  Lines 512 to 541: what the loop does with the result \<open>r\<close> of the poll and the line.
  \<open>Break\<close> leaves the loop; the \<open>continue\<close> of the help command skips the sleep.
\<close>

definition dispatch :: "string \<Rightarrow> int \<Rightarrow> string \<Rightarrow> world \<Rightarrow> ctl \<times> world" where
  "dispatch nick r line w =
     (if r = - 2 then (Break, w)
      else if r < 0 then (Break, emit [Stdin_failed] w)
      else if r = 1 then
        (if cstr line = ''/quit'' then (Break, w)
         else if cstr line = ''/help'' then (Continue, emit [Help_shown] w)
         else if cstr line \<noteq> [] then
           (case format_packet (Some []) MAX_PKT (Some nick) (Some line) of
              Some pkt \<Rightarrow> (Continue, emit [Prompt, Slept 10] (sendto (cstr pkt) w))
            | None \<Rightarrow> (Continue, emit [Prompt, Slept 10] w))
         else (Continue, emit [Prompt, Slept 10] w))
      else (Continue, emit [Slept 10] w))"

definition main_iter :: "platform \<Rightarrow> string \<Rightarrow> world \<Rightarrow> ctl \<times> world" where
  "main_iter pf nick w =
     (case poll_input pf (drain_phase pf w) of (r, line, w2) \<Rightarrow> dispatch nick r line w2)"

text \<open>The events that the input phase of an iteration (lines 511 to 541) can add to the log.\<close>

definition input_event :: "event \<Rightarrow> bool" where
  "input_event e =
     (case e of
        Stdin_failed \<Rightarrow> True
      | Help_shown \<Rightarrow> True
      | Prompt \<Rightarrow> True
      | Sent pkt rc \<Rightarrow> True
      | Slept ms \<Rightarrow> True
      | _ \<Rightarrow> False)"

section \<open>Facts about C strings and the codec\<close>

lemma cstr_id: "NUL \<notin> set s \<Longrightarrow> cstr s = s"
  by (induction s) (auto simp: cstr_def)

lemma cstr_no_NUL: "NUL \<notin> set (cstr s)"
  unfolding cstr_def using set_takeWhileD by fastforce

lemma strip_loop_eq:
  "int (length tmp) \<le> MAX_TEXT - 1 \<Longrightarrow>
   strip_loop cs tmp =
     tmp @ take (nat (MAX_TEXT - 1) - length tmp) (filter (\<lambda>c. c \<noteq> CR \<and> c \<noteq> LF) (cstr cs))"
proof (induction cs arbitrary: tmp)
  case Nil
  then show ?case by (simp add: cstr_def)
next
  case (Cons c cs)
  show ?case
  proof (cases "c = NUL \<or> \<not> int (length tmp) < MAX_TEXT - 1")
    case True
    then show ?thesis using Cons.prems by (auto simp: cstr_def)
  next
    case False
    then have lt: "int (length tmp) < MAX_TEXT - 1" and nn: "c \<noteq> NUL" by auto
    show ?thesis
    proof (cases "c = CR \<or> c = LF")
      case True
      then show ?thesis using False Cons.IH [OF Cons.prems] by (auto simp: cstr_def)
    next
      case keep: False
      have "int (length (tmp @ [c])) \<le> MAX_TEXT - 1" using lt by simp
      from Cons.IH [OF this] have
        "strip_loop cs (tmp @ [c]) =
           (tmp @ [c]) @ take (nat (MAX_TEXT - 1) - length (tmp @ [c]))
              (filter (\<lambda>c. c \<noteq> CR \<and> c \<noteq> LF) (cstr cs))" .
      moreover have "nat (MAX_TEXT - 1) - length tmp = Suc (nat (MAX_TEXT - 1) - length (tmp @ [c]))"
        using lt by simp
      ultimately show ?thesis using False keep nn
        by (simp add: cstr_def)
    qed
  qed
qed

lemma strip_loop_start:
  "strip_loop text [] = take 511 (filter (\<lambda>c. c \<noteq> CR \<and> c \<noteq> LF) (cstr text))"
  using strip_loop_eq [of "[]" "text"] by (simp add: MAX_TEXT_def)

lemma strip_loop_no_NUL: "NUL \<notin> set (strip_loop text [])"
proof -
  have "set (strip_loop text []) \<subseteq> set (cstr text)"
    unfolding strip_loop_start using set_take_subset by fastforce
  then show ?thesis using cstr_no_NUL by blast
qed

lemma strchr_None_iff: "strchr xs c = None \<longleftrightarrow> c \<notin> set xs"
  by (induction xs) auto

lemma strchr_first: "c \<notin> set xs \<Longrightarrow> strchr (xs @ c # ys) c = Some (length xs)"
  by (induction xs) auto

lemma strchr_Some:
  "strchr xs c = Some i \<Longrightarrow>
     i = length (takeWhile (\<lambda>x. x \<noteq> c) xs) \<and> drop (Suc i) xs = tl (dropWhile (\<lambda>x. x \<noteq> c) xs)
     \<and> take i xs = takeWhile (\<lambda>x. x \<noteq> c) xs"
proof (induction xs arbitrary: i)
  case Nil
  then show ?case by simp
next
  case (Cons x xs)
  show ?case
  proof (cases "x = c")
    case True
    with Cons.prems show ?thesis by simp
  next
    case False
    with Cons.prems obtain j where j: "strchr xs c = Some j" "i = Suc j" by auto
    from Cons.IH [OF j(1)] have
      "j = length (takeWhile (\<lambda>x. x \<noteq> c) xs)"
      "drop (Suc j) xs = tl (dropWhile (\<lambda>x. x \<noteq> c) xs)"
      "take j xs = takeWhile (\<lambda>x. x \<noteq> c) xs" by auto
    with j(2) False show ?thesis by simp
  qed
qed

lemma parse_packet_wire:
  assumes sz: "0 < nick_out_size" "0 < text_out_size"
    and nick: "nick \<noteq> []" "SEP \<notin> set nick" "NUL \<notin> set nick"
    and body: "NUL \<notin> set body"
  shows "parse_packet (Some (''OM1|'' @ nick @ ''|'' @ body)) nick_out_size text_out_size =
         Inr (take (nat (nick_out_size - 1)) nick, take (nat (text_out_size - 1)) body)"
proof -
  define wire where "wire = ''OM1|'' @ nick @ ''|'' @ body"
  have nn: "NUL \<notin> set wire"
    using nick body by (simp add: wire_def NUL_def)
  have c: "cstr wire = wire"
    by (rule cstr_id [OF nn])
  have tag: "take 4 wire = ''OM1|''" by (simp add: wire_def)
  have rest: "drop 4 wire = nick @ SEP # body" by (simp add: wire_def SEP_def)
  have bar: "strchr (nick @ SEP # body) SEP = Some (length nick)"
    by (rule strchr_first [OF nick(2)])
  have pos: "\<not> int (length nick) \<le> 0" using nick(1) by simp
  have n2: "take (nat (if nick_out_size \<le> int (length nick) then nick_out_size - 1
                       else int (length nick))) nick
            = take (nat (nick_out_size - 1)) nick" using sz by simp
  have t2: "take (nat (if text_out_size \<le> int (length body) then text_out_size - 1
                       else int (length body))) body
            = take (nat (text_out_size - 1)) body" using sz by simp
  have "parse_packet (Some wire) nick_out_size text_out_size =
         Inr (take (nat (nick_out_size - 1)) nick, take (nat (text_out_size - 1)) body)"
    unfolding parse_packet_def using sz nick(1)
    by (auto simp: c tag rest bar Let_def)
  then show ?thesis by (simp add: wire_def)
qed


lemma format_packet_wire:
  assumes "0 < out_size"
  shows "format_packet (Some old) out_size nick body =
         Some (take (nat (out_size - 1))
                 (''OM1|'' @ cstr (case nick of None \<Rightarrow> ''anon'' | Some n \<Rightarrow> n) @ ''|'' @
                  take 511 (filter (\<lambda>c. c \<noteq> CR \<and> c \<noteq> LF)
                    (cstr (case body of None \<Rightarrow> [] | Some t \<Rightarrow> t)))))"
proof -
  have "cstr (strip_loop t []) = strip_loop t []" for t
    by (rule cstr_id) (rule strip_loop_no_NUL)
  then show ?thesis using assms
    by (simp add: format_packet_def snprintf_s_def strip_loop_start Let_def)
qed

lemma decode_encode:
  assumes nick: "nick \<noteq> []" "SEP \<notin> set nick" "NUL \<notin> set nick" "length nick \<le> 251"
    and body: "NUL \<notin> set body"
  shows "parse_packet (format_packet (Some old) MAX_PKT (Some nick) (Some body)) MAX_NICK MAX_TEXT =
         Inr (take 31 nick, take 511 (filter (\<lambda>c. c \<noteq> CR \<and> c \<noteq> LF) body))"
proof -
  define clean where "clean = take 511 (filter (\<lambda>c. c \<noteq> CR \<and> c \<noteq> LF) body)"
  have len: "length clean \<le> 511" by (simp add: clean_def)
  have nn: "NUL \<notin> set clean"
    using body unfolding clean_def by (auto dest: in_set_takeD)
  have fits: "length (''OM1|'' @ nick @ ''|'' @ clean) \<le> 767"
    using nick(4) len by simp
  have "format_packet (Some old) MAX_PKT (Some nick) (Some body) =
        Some (take 767 (''OM1|'' @ nick @ ''|'' @ clean))"
    using format_packet_wire [of MAX_PKT old "Some nick" "Some body"]
    by (simp add: MAX_PKT_def cstr_id [OF nick(3)] cstr_id [OF body] clean_def)
  also have "take 767 (''OM1|'' @ nick @ ''|'' @ clean) = ''OM1|'' @ nick @ ''|'' @ clean"
    using fits by (rule take_all)
  finally have enc: "format_packet (Some old) MAX_PKT (Some nick) (Some body) =
        Some (''OM1|'' @ nick @ ''|'' @ clean)" .
  show ?thesis
    unfolding enc
    using parse_packet_wire [of MAX_NICK MAX_TEXT nick clean, OF _ _ nick(1) nick(2) nick(3) nn]
    by (simp add: MAX_NICK_def MAX_TEXT_def clean_def)
qed

lemma encode_wire:
  assumes "NUL \<notin> set nick" and "length nick \<le> 251" and "NUL \<notin> set body"
  shows "format_packet (Some old) MAX_PKT (Some nick) (Some body) =
         Some (''OM1|'' @ nick @ ''|'' @ take 511 (filter (\<lambda>c. c \<noteq> CR \<and> c \<noteq> LF) body))"
proof -
  define clean where "clean = take 511 (filter (\<lambda>c. c \<noteq> CR \<and> c \<noteq> LF) body)"
  have len: "length clean \<le> 511" by (simp add: clean_def)
  have fits: "length (''OM1|'' @ nick @ ''|'' @ clean) \<le> 767"
    using assms(2) len by simp
  have "format_packet (Some old) MAX_PKT (Some nick) (Some body) =
        Some (take 767 (''OM1|'' @ nick @ ''|'' @ clean))"
    using format_packet_wire [of MAX_PKT old "Some nick" "Some body"]
    by (simp add: MAX_PKT_def cstr_id [OF assms(1)] cstr_id [OF assms(3)] clean_def)
  also have "take 767 (''OM1|'' @ nick @ ''|'' @ clean) = ''OM1|'' @ nick @ ''|'' @ clean"
    using fits by (rule take_all)
  finally show ?thesis by (simp add: clean_def)
qed

lemma encode_oversized:
  assumes "NUL \<notin> set nick" "763 \<le> length nick"
  shows "format_packet (Some old) MAX_PKT (Some nick) body = Some (''OM1|'' @ take 763 nick)"
  using assms format_packet_wire [of MAX_PKT old "Some nick" body]
  by (simp add: MAX_PKT_def cstr_id)

lemma parse_no_separator:
  assumes "NUL \<notin> set field" "SEP \<notin> set field" "0 < nick_out_size" "0 < text_out_size"
  shows "parse_packet (Some (''OM1|'' @ field)) nick_out_size text_out_size = Inl No_separator"
proof -
  define wire where "wire = ''OM1|'' @ field"
  have "NUL \<notin> set wire" using assms(1) by (simp add: wire_def NUL_def)
  then have c: "cstr wire = wire" by (rule cstr_id)
  have tag: "take 4 wire = ''OM1|''" and rest: "drop 4 wire = field" by (simp_all add: wire_def)
  have "strchr field SEP = None" using assms(2) by (simp add: strchr_None_iff)
  then have "parse_packet (Some wire) nick_out_size text_out_size = Inl No_separator"
    unfolding parse_packet_def using assms(3,4) by (simp add: c tag rest)
  then show ?thesis by (simp add: wire_def)
qed

section \<open>Claims about the packet codec\<close>

text \<open>
  C1 (as stated): every nick without the separator and within the nick bound (32), with
  every text without CR and LF and within the body bound (512), survives encoding and
  decoding. The code does not do that at three places: an empty nick is refused by the
  decoder, a nick of 32 bytes comes back cut to 31 bytes, and a text of 512 bytes comes
  back cut to 511 bytes.
\<close>

theorem roundtrip_counterexample:
  "parse_packet (format_packet (Some []) MAX_PKT (Some []) (Some ''hi'')) MAX_NICK MAX_TEXT
     = Inl Empty_nick
   \<and> parse_packet (format_packet (Some []) MAX_PKT (Some (replicate 32 CHR ''n'')) (Some ''hi''))
       MAX_NICK MAX_TEXT = Inr (replicate 31 CHR ''n'', ''hi'')
   \<and> parse_packet (format_packet (Some []) MAX_PKT (Some ''bob'') (Some (replicate 512 CHR ''x'')))
       MAX_NICK MAX_TEXT = Inr (''bob'', replicate 511 CHR ''x'')"
proof (intro conjI)
  show "parse_packet (format_packet (Some []) MAX_PKT (Some []) (Some ''hi'')) MAX_NICK MAX_TEXT
     = Inl Empty_nick"
    by code_simp
  show "parse_packet (format_packet (Some []) MAX_PKT (Some (replicate 32 CHR ''n'')) (Some ''hi''))
       MAX_NICK MAX_TEXT = Inr (replicate 31 CHR ''n'', ''hi'')"
    using decode_encode [of "replicate 32 CHR ''n''" "''hi''" "[]"]
    by (simp add: SEP_def NUL_def CR_def LF_def)
  show "parse_packet (format_packet (Some []) MAX_PKT (Some ''bob'') (Some (replicate 512 CHR ''x'')))
       MAX_NICK MAX_TEXT = Inr (''bob'', replicate 511 CHR ''x'')"
    using decode_encode [of "''bob''" "replicate 512 CHR ''x''" "[]"]
    by (simp add: SEP_def NUL_def CR_def LF_def)
qed

text \<open>
  C1 (amended): for every C string \<open>nick\<close> that is not empty, contains no separator and
  has at most 31 bytes (it fits a buffer of \<open>MAX_NICK\<close> bytes with its terminator), and
  every C string \<open>text\<close> without CR and LF of at most 511 bytes (it fits a buffer of
  \<open>MAX_TEXT\<close> bytes), \<open>parse_packet\<close> applied to the output of \<open>format_packet\<close> succeeds
  and yields exactly \<open>(nick, text)\<close>; the text may contain the separator.
\<close>

theorem roundtrip:
  assumes "nick \<noteq> []" and "SEP \<notin> set nick" and "NUL \<notin> set nick"
    and "int (length nick) < MAX_NICK"
    and "NUL \<notin> set body" and "CR \<notin> set body" and "LF \<notin> set body"
    and "int (length body) < MAX_TEXT"
  shows "parse_packet (format_packet (Some old) MAX_PKT (Some nick) (Some body)) MAX_NICK MAX_TEXT
         = Inr (nick, body)"
proof -
  have keep: "filter (\<lambda>c. c \<noteq> CR \<and> c \<noteq> LF) body = body"
    using assms(6,7) by (auto simp: filter_id_conv)
  have "length nick \<le> 251" and n: "take 31 nick = nick"
    using assms(4) by (simp_all add: MAX_NICK_def)
  moreover have "take 511 body = body"
    using assms(8) by (simp add: MAX_TEXT_def)
  ultimately show ?thesis
    using decode_encode [OF assms(1,2,3) _ assms(5), of old] by (simp add: keep)
qed

theorem roundtrip_witness:
  "''alice'' \<noteq> [] \<and> SEP \<notin> set ''alice'' \<and> NUL \<notin> set ''alice''
   \<and> int (length ''alice'') < MAX_NICK
   \<and> NUL \<notin> set ''a|b'' \<and> CR \<notin> set ''a|b'' \<and> LF \<notin> set ''a|b''
   \<and> int (length ''a|b'') < MAX_TEXT
   \<and> parse_packet (format_packet (Some []) MAX_PKT (Some ''alice'') (Some ''a|b''))
        MAX_NICK MAX_TEXT = Inr (''alice'', ''a|b'')"
  using roundtrip [of "''alice''" "''a|b''" "[]"]
  by (simp add: SEP_def NUL_def CR_def LF_def MAX_NICK_def MAX_TEXT_def)

text \<open>
  C2 (as stated): \<open>format_packet\<close> truncates the sanitised text to 512 bytes, and a
  text whose sanitised form is longer than 512 bytes comes back as its 512-byte prefix.
  The loop stops at \<open>sizeof(tmp) - 1\<close>: for a text of 513 bytes the packet carries 511
  body bytes, and these 511 come back.
\<close>

theorem truncation_counterexample:
  "format_packet (Some []) MAX_PKT (Some ''bob'') (Some (replicate 513 CHR ''x''))
     = Some (''OM1|bob|'' @ replicate 511 CHR ''x'')
   \<and> parse_packet (format_packet (Some []) MAX_PKT (Some ''bob'') (Some (replicate 513 CHR ''x'')))
     MAX_NICK MAX_TEXT = Inr (''bob'', replicate 511 CHR ''x'')
   \<and> take 512 (filter (\<lambda>c. c \<noteq> CR \<and> c \<noteq> LF) (replicate 513 CHR ''x'')) = replicate 512 CHR ''x''"
  using decode_encode [of "''bob''" "replicate 513 CHR ''x''" "[]"]
    encode_wire [of "''bob''" "replicate 513 CHR ''x''" "[]"]
  by (simp add: SEP_def NUL_def CR_def LF_def)

text \<open>
  C2 (amended): \<open>format_packet\<close> truncates the text, after CR and LF are removed, to 511
  bytes (\<open>sizeof(tmp) - 1\<close>). For every C string \<open>text\<close> whose sanitised form is longer
  than 511 bytes, and every nick as in C1, the encoded packet is the tag, the nick and
  exactly the first 511 bytes of the sanitised text; it is decodable, and the text
  recovered by \<open>parse_packet\<close> is exactly that 511-byte prefix.
\<close>

theorem truncation:
  assumes "nick \<noteq> []" and "SEP \<notin> set nick" and "NUL \<notin> set nick"
    and "int (length nick) < MAX_NICK"
    and "NUL \<notin> set body"
    and "int (length (filter (\<lambda>c. c \<noteq> CR \<and> c \<noteq> LF) body)) > MAX_TEXT - 1"
  shows "format_packet (Some old) MAX_PKT (Some nick) (Some body)
           = Some (''OM1|'' @ nick @ ''|'' @ take 511 (filter (\<lambda>c. c \<noteq> CR \<and> c \<noteq> LF) body))
         \<and> length (''OM1|'' @ nick @ ''|'' @ take 511 (filter (\<lambda>c. c \<noteq> CR \<and> c \<noteq> LF) body))
             = length nick + 516
         \<and> parse_packet (format_packet (Some old) MAX_PKT (Some nick) (Some body)) MAX_NICK MAX_TEXT
             = Inr (nick, take 511 (filter (\<lambda>c. c \<noteq> CR \<and> c \<noteq> LF) body))
         \<and> length (take 511 (filter (\<lambda>c. c \<noteq> CR \<and> c \<noteq> LF) body)) = 511"
proof -
  have n: "length nick \<le> 251" and "take 31 nick = nick"
    using assms(4) by (simp_all add: MAX_NICK_def)
  then have dec: "parse_packet (format_packet (Some old) MAX_PKT (Some nick) (Some body))
               MAX_NICK MAX_TEXT
             = Inr (nick, take 511 (filter (\<lambda>c. c \<noteq> CR \<and> c \<noteq> LF) body))"
    using decode_encode [OF assms(1,2,3) _ assms(5), of old] by simp
  have enc: "format_packet (Some old) MAX_PKT (Some nick) (Some body)
           = Some (''OM1|'' @ nick @ ''|'' @ take 511 (filter (\<lambda>c. c \<noteq> CR \<and> c \<noteq> LF) body))"
    by (rule encode_wire [OF assms(3) n assms(5)])
  have len: "length (take 511 (filter (\<lambda>c. c \<noteq> CR \<and> c \<noteq> LF) body)) = 511"
    using assms(6) by (simp add: MAX_TEXT_def)
  have "length (''OM1|'' @ nick @ ''|'' @ take 511 (filter (\<lambda>c. c \<noteq> CR \<and> c \<noteq> LF) body))
             = length nick + 516"
    using len by simp
  with enc dec len show ?thesis by simp
qed

theorem truncation_witness:
  "''bob'' \<noteq> [] \<and> SEP \<notin> set ''bob'' \<and> NUL \<notin> set ''bob'' \<and> int (length ''bob'') < MAX_NICK
   \<and> NUL \<notin> set (replicate 600 CHR ''x'')
   \<and> int (length (filter (\<lambda>c. c \<noteq> CR \<and> c \<noteq> LF) (replicate 600 CHR ''x''))) > MAX_TEXT - 1
   \<and> format_packet (Some []) MAX_PKT (Some ''bob'') (Some (replicate 600 CHR ''x''))
       = Some (''OM1|bob|'' @ replicate 511 CHR ''x'')
   \<and> parse_packet (format_packet (Some []) MAX_PKT (Some ''bob'') (Some (replicate 600 CHR ''x'')))
        MAX_NICK MAX_TEXT = Inr (''bob'', replicate 511 CHR ''x'')"
  using truncation [of "''bob''" "replicate 600 CHR ''x''" "[]"]
  by (auto simp: SEP_def NUL_def CR_def LF_def MAX_NICK_def MAX_TEXT_def)

text \<open>
  C8 (as stated): for every text, the recovered text is the input with exactly the CR and
  LF characters deleted. A carriage return followed by 512 letters has 512 bytes left
  after the deletion, and 511 of them come back.
\<close>

theorem sanitization_counterexample:
  "parse_packet (format_packet (Some []) MAX_PKT (Some ''bob'') (Some (CR # replicate 512 CHR ''x'')))
     MAX_NICK MAX_TEXT = Inr (''bob'', replicate 511 CHR ''x'')
   \<and> filter (\<lambda>c. c \<noteq> CR \<and> c \<noteq> LF) (CR # replicate 512 CHR ''x'') = replicate 512 CHR ''x''"
  using decode_encode [of "''bob''" "CR # replicate 512 CHR ''x''" "[]"]
  by (simp add: SEP_def NUL_def CR_def LF_def)

text \<open>
  C8 (amended): for every C string \<open>text\<close> and every nick as in C1, the text recovered by
  decoding the encoded packet is the input text with exactly the CR and LF characters
  deleted, the order of the other characters kept, cut to its first 511 bytes; it is all
  of the sanitised text when that has at most 511 bytes.
\<close>

theorem sanitization:
  assumes "nick \<noteq> []" and "SEP \<notin> set nick" and "NUL \<notin> set nick"
    and "int (length nick) < MAX_NICK"
    and "NUL \<notin> set body"
  shows "parse_packet (format_packet (Some old) MAX_PKT (Some nick) (Some body)) MAX_NICK MAX_TEXT
         = Inr (nick, take 511 (filter (\<lambda>c. c \<noteq> CR \<and> c \<noteq> LF) body))
         \<and> (int (length (filter (\<lambda>c. c \<noteq> CR \<and> c \<noteq> LF) body)) < MAX_TEXT \<longrightarrow>
              parse_packet (format_packet (Some old) MAX_PKT (Some nick) (Some body))
                MAX_NICK MAX_TEXT
              = Inr (nick, filter (\<lambda>c. c \<noteq> CR \<and> c \<noteq> LF) body))"
proof -
  have "length nick \<le> 251" and "take 31 nick = nick"
    using assms(4) by (simp_all add: MAX_NICK_def)
  then have "parse_packet (format_packet (Some old) MAX_PKT (Some nick) (Some body))
               MAX_NICK MAX_TEXT
             = Inr (nick, take 511 (filter (\<lambda>c. c \<noteq> CR \<and> c \<noteq> LF) body))"
    using decode_encode [OF assms(1,2,3) _ assms(5), of old] by simp
  then show ?thesis by (simp add: MAX_TEXT_def)
qed

theorem sanitization_witness:
  "''bob'' \<noteq> [] \<and> SEP \<notin> set ''bob'' \<and> NUL \<notin> set ''bob'' \<and> int (length ''bob'') < MAX_NICK
   \<and> NUL \<notin> set ([CR] @ ''one'' @ [LF, CR] @ ''two'' @ [LF])
   \<and> int (length (filter (\<lambda>c. c \<noteq> CR \<and> c \<noteq> LF) ([CR] @ ''one'' @ [LF, CR] @ ''two'' @ [LF])))
       < MAX_TEXT
   \<and> parse_packet (format_packet (Some []) MAX_PKT (Some ''bob'')
        (Some ([CR] @ ''one'' @ [LF, CR] @ ''two'' @ [LF]))) MAX_NICK MAX_TEXT
       = Inr (''bob'', ''onetwo'')"
  using sanitization [of "''bob''" "[CR] @ ''one'' @ [LF, CR] @ ''two'' @ [LF]" "[]"]
  by (simp add: SEP_def NUL_def CR_def LF_def MAX_NICK_def MAX_TEXT_def)

text \<open>
  C3: with output buffers of positive size, \<open>parse_packet\<close> returns an error if and only
  if the C string of the input does not start with \<open>OM1|\<close>, or no separator follows the
  nick position, or the nick field is empty. In every other case it succeeds with the
  nick field and the rest of the input, each cut to what its buffer holds with the
  terminator; the function is total, and a success carries both fields.
\<close>

theorem parse_packet_error_iff:
  assumes "0 < nick_out_size" and "0 < text_out_size"
  shows "((\<exists>e. parse_packet (Some bytes) nick_out_size text_out_size = Inl e) \<longleftrightarrow>
            (take 4 (cstr bytes) \<noteq> ''OM1|''
             \<or> SEP \<notin> set (drop 4 (cstr bytes))
             \<or> takeWhile (\<lambda>c. c \<noteq> SEP) (drop 4 (cstr bytes)) = []))
         \<and> (\<not> (take 4 (cstr bytes) \<noteq> ''OM1|''
               \<or> SEP \<notin> set (drop 4 (cstr bytes))
               \<or> takeWhile (\<lambda>c. c \<noteq> SEP) (drop 4 (cstr bytes)) = []) \<longrightarrow>
            (\<exists>nick_out text_out.
               parse_packet (Some bytes) nick_out_size text_out_size = Inr (nick_out, text_out)
               \<and> nick_out = take (nat (nick_out_size - 1))
                              (takeWhile (\<lambda>c. c \<noteq> SEP) (drop 4 (cstr bytes)))
               \<and> text_out = take (nat (text_out_size - 1))
                              (tl (dropWhile (\<lambda>c. c \<noteq> SEP) (drop 4 (cstr bytes))))
               \<and> int (length nick_out) < nick_out_size
               \<and> int (length text_out) < text_out_size))"
proof -
  define p where "p = drop 4 (cstr bytes)"
  show ?thesis
  proof (cases "take 4 (cstr bytes) = ''OM1|''")
    case False
    then show ?thesis using assms by (simp add: parse_packet_def)
  next
    case tag: True
    show ?thesis
    proof (cases "strchr p SEP")
      case None
      then have "SEP \<notin> set p" by (simp add: strchr_None_iff)
      moreover have "parse_packet (Some bytes) nick_out_size text_out_size = Inl No_separator"
        using assms tag None by (simp add: parse_packet_def p_def)
      ultimately show ?thesis by (simp add: p_def)
    next
      case (Some bar)
      then have mem: "SEP \<in> set p"
        using strchr_None_iff [of p SEP] by auto
      from strchr_Some [OF Some] have
        bar: "bar = length (takeWhile (\<lambda>x. x \<noteq> SEP) p)"
        and rest: "drop (Suc bar) p = tl (dropWhile (\<lambda>x. x \<noteq> SEP) p)"
        and field: "take bar p = takeWhile (\<lambda>x. x \<noteq> SEP) p" by auto
      show ?thesis
      proof (cases "bar = 0")
        case True
        then have "takeWhile (\<lambda>x. x \<noteq> SEP) p = []" using bar by simp
        moreover have "parse_packet (Some bytes) nick_out_size text_out_size = Inl Empty_nick"
          using assms tag Some True by (simp add: parse_packet_def p_def)
        ultimately show ?thesis by (simp add: p_def)
      next
        case False
        then have ne: "takeWhile (\<lambda>x. x \<noteq> SEP) p \<noteq> []" using bar by auto
        define nlen where
          "nlen = (if int bar \<ge> nick_out_size then nick_out_size - 1 else int bar)"
        define p2 where "p2 = drop (bar + 1) p"
        define tlen where
          "tlen = (if int (length p2) \<ge> text_out_size then text_out_size - 1
                   else int (length p2))"
        have res: "parse_packet (Some bytes) nick_out_size text_out_size =
                   Inr (take (nat nlen) p, take (nat tlen) p2)"
          using assms tag Some False
          by (simp add: parse_packet_def p_def nlen_def p2_def tlen_def Let_def)
        have le: "nat nlen \<le> bar"
          unfolding nlen_def using assms by (auto simp: nat_le_iff)
        have "take (nat nlen) p = take (nat nlen) (take bar p)"
          using le by (simp add: min_def)
        also have "\<dots> = take (nat (nick_out_size - 1)) (take bar p)"
          using assms by (simp add: nlen_def)
        finally have nk: "take (nat nlen) p =
            take (nat (nick_out_size - 1)) (takeWhile (\<lambda>x. x \<noteq> SEP) p)"
          by (simp only: field)
        have tx: "take (nat tlen) p2 =
            take (nat (text_out_size - 1)) (tl (dropWhile (\<lambda>x. x \<noteq> SEP) p))"
          using assms rest by (simp add: tlen_def p2_def)
        have "nlen < nick_out_size" and "0 \<le> nlen"
          using assms by (auto simp: nlen_def)
        then have b1: "int (length (take (nat nlen) p)) < nick_out_size"
          by (auto simp: min_def)
        have "tlen < text_out_size" and "0 \<le> tlen"
          using assms by (auto simp: tlen_def)
        then have b2: "int (length (take (nat tlen) p2)) < text_out_size"
          by (auto simp: min_def)
        show ?thesis
          using res mem ne tag nk tx b1 b2 by (simp add: p_def)
      qed
    qed
  qed
qed

theorem parse_packet_error_iff_witness:
  "(0::int) < 32 \<and> (0::int) < 512
   \<and> (\<exists>e. parse_packet (Some ''OM1||hi'') 32 512 = Inl e)
   \<and> (\<exists>e. parse_packet (Some ''OM2|bob|hi'') 32 512 = Inl e)
   \<and> (\<exists>e. parse_packet (Some ''OM1|bob'') 32 512 = Inl e)
   \<and> parse_packet (Some ''OM1|bob|a|b'') 32 512 = Inr (''bob'', ''a|b'')"
  using parse_packet_error_iff [of 32 512 "''OM1||hi''"]
    parse_packet_error_iff [of 32 512 "''OM2|bob|hi''"]
    parse_packet_error_iff [of 32 512 "''OM1|bob''"]
    parse_packet_error_iff [of 32 512 "''OM1|bob|a|b''"]
  by (simp add: cstr_def NUL_def SEP_def)

text \<open>
  C9: \<open>format_packet\<close> neither cuts nor checks the nick; only \<open>snprintf\<close> caps the whole
  output at the size of the packet buffer. For every C string \<open>nick\<close> without the
  separator of at least 763 bytes (so for every one of 764 or more bytes) and every text,
  the output for the 768-byte packet buffer is the tag, its separator and the first 763
  bytes of the nick: it holds a single separator, and \<open>parse_packet\<close> rejects it.
\<close>

theorem oversized_nick_not_decodable:
  assumes "SEP \<notin> set nick" and "NUL \<notin> set nick" and "763 \<le> length nick"
  shows "format_packet (Some old) MAX_PKT (Some nick) body = Some (''OM1|'' @ take 763 nick)
         \<and> count_list (''OM1|'' @ take 763 nick) SEP = 1
         \<and> parse_packet (format_packet (Some old) MAX_PKT (Some nick) body) MAX_NICK MAX_TEXT
             = Inl No_separator"
proof -
  have enc: "format_packet (Some old) MAX_PKT (Some nick) body = Some (''OM1|'' @ take 763 nick)"
    by (rule encode_oversized [OF assms(2,3)])
  have s: "SEP \<notin> set (take 763 nick)" and n: "NUL \<notin> set (take 763 nick)"
    using assms(1,2) by (auto dest: in_set_takeD)
  have "count_list (take 763 nick) SEP = 0"
    using s by (simp add: count_list_0_iff)
  then have cnt: "count_list (''OM1|'' @ take 763 nick) SEP = 1"
    by (simp add: SEP_def)
  have "parse_packet (Some (''OM1|'' @ take 763 nick)) MAX_NICK MAX_TEXT = Inl No_separator"
    by (rule parse_no_separator [OF n s]) (simp_all add: MAX_NICK_def MAX_TEXT_def)
  with enc cnt show ?thesis by simp
qed

theorem oversized_nick_not_decodable_witness:
  "SEP \<notin> set (replicate 764 CHR ''n'') \<and> NUL \<notin> set (replicate 764 CHR ''n'')
   \<and> 763 \<le> length (replicate 764 CHR ''n'')
   \<and> format_packet (Some []) MAX_PKT (Some (replicate 764 CHR ''n'')) (Some ''hi'')
       = Some (''OM1|'' @ replicate 763 CHR ''n'')
   \<and> parse_packet (format_packet (Some []) MAX_PKT (Some (replicate 764 CHR ''n'')) (Some ''hi''))
       MAX_NICK MAX_TEXT = Inl No_separator"
  using oversized_nick_not_decodable [of "replicate 764 CHR ''n''" "[]" "Some ''hi''"]
  by (auto simp: SEP_def NUL_def)

section \<open>Facts about the receive helper and the loop\<close>

lemma recv_step_data:
  "payload \<noteq> [] \<Longrightarrow>
   recv_step pf (Recv_data a payload) = ([render a (take (nat (MAX_PKT - 1)) payload)], True)"
  by (simp add: recv_step_def udp_recvfrom_nb_def MAX_PKT_def Let_def)

lemma recv_step_stop:
  "n_ret (udp_recvfrom_nb pf (MAX_PKT - 1) r) \<le> 0 \<Longrightarrow>
   \<exists>pre. recv_step pf r = (pre, False) \<and> set pre \<subseteq> {Recv_failed}"
  by (auto simp: recv_step_def Let_def)

lemma recv_step_idle: "recv_step pf (idle_recv pf) = ([], False)"
  by (cases pf)
    (simp_all add: recv_step_def udp_recvfrom_nb_def idle_recv_def recv_ret_def MAX_PKT_def)

lemma drain_data:
  "\<forall>x \<in> set ds. snd x \<noteq> [] \<Longrightarrow>
   drain pf (map (\<lambda>(a, d). Recv_data a d) ds @ stop) =
     (map (\<lambda>(a, d). render a (take (nat (MAX_PKT - 1)) d)) ds @ fst (drain pf stop),
      snd (drain pf stop))"
proof (induction ds)
  case Nil
  then show ?case by simp
next
  case (Cons x ds)
  obtain a d where x: "x = (a, d)" by (cases x)
  with Cons.prems have "d \<noteq> []" by simp
  then have step: "recv_step pf (Recv_data a d) = ([render a (take (nat (MAX_PKT - 1)) d)], True)"
    by (rule recv_step_data)
  from Cons have IH: "drain pf (map (\<lambda>(a, d). Recv_data a d) ds @ stop) =
     (map (\<lambda>(a, d). render a (take (nat (MAX_PKT - 1)) d)) ds @ fst (drain pf stop),
      snd (drain pf stop))" by simp
  show ?case by (simp add: x step IH)
qed

lemma drain_stop:
  assumes "stop = [] \<or> n_ret (udp_recvfrom_nb pf (MAX_PKT - 1) (hd stop)) \<le> 0"
  shows "\<exists>pre. drain pf stop = (pre, tl stop) \<and> set pre \<subseteq> {Recv_failed}"
proof (cases stop)
  case Nil
  then show ?thesis by (simp add: recv_step_idle)
next
  case (Cons r rs)
  with assms have "n_ret (udp_recvfrom_nb pf (MAX_PKT - 1) r) \<le> 0" by simp
  from recv_step_stop [OF this] obtain pre where
    "recv_step pf r = (pre, False)" "set pre \<subseteq> {Recv_failed}" by blast
  then show ?thesis using Cons by simp
qed

lemma drain_stop_exact:
  assumes "stop = [] \<or> n_ret (udp_recvfrom_nb pf (MAX_PKT - 1) (hd stop)) \<le> 0"
  shows "drain pf stop =
           (if stop \<noteq> [] \<and> n_ret (udp_recvfrom_nb pf (MAX_PKT - 1) (hd stop)) < 0
            then [Recv_failed] else [], tl stop)"
proof (cases stop)
  case Nil
  then show ?thesis by (simp add: recv_step_idle)
next
  case (Cons r rs)
  with assms have le: "n_ret (udp_recvfrom_nb pf (MAX_PKT - 1) r) \<le> 0" by simp
  have "recv_step pf r =
          (if n_ret (udp_recvfrom_nb pf (MAX_PKT - 1) r) < 0 then [Recv_failed] else [], False)"
    using le by (auto simp: recv_step_def Let_def)
  then show ?thesis using Cons by simp
qed

lemma poll_input_log:
  "\<exists>r line w2. poll_input pf w = (r, line, w2) \<and> log w2 = log w @ [Polled r]
     \<and> rxq w2 = rxq w \<and> txrc w2 = txrc w"
  by (cases pf) (auto simp: poll_input_def split: prod.splits list.splits)

lemma poll_input_same:
  assumes "stdin_rd w' = stdin_rd w" and "console w' = console w" and "linebuf w' = linebuf w"
  shows "fst (poll_input pf w') = fst (poll_input pf w)
         \<and> fst (snd (poll_input pf w')) = fst (snd (poll_input pf w))"
  using assms by (cases pf) (auto simp: poll_input_def split: prod.splits list.splits)

lemma drain_phase_fields:
  "stdin_rd (drain_phase pf w) = stdin_rd w \<and> console (drain_phase pf w) = console w
   \<and> linebuf (drain_phase pf w) = linebuf w \<and> txrc (drain_phase pf w) = txrc w"
  by (simp add: drain_phase_def split: prod.splits)

lemma sendto_log:
  "\<exists>rc. log (sendto bytes w) = log w @ [Sent bytes rc] \<and> rxq (sendto bytes w) = rxq w"
  by (auto simp: sendto_def split: list.splits)

lemma dispatch_log:
  "\<exists>evs. log (snd (dispatch nick r line w)) = log w @ evs \<and> (\<forall>e \<in> set evs. input_event e)
     \<and> rxq (snd (dispatch nick r line w)) = rxq w"
  by (auto simp: dispatch_def emit_def sendto_def input_event_def
      split: option.splits list.splits)

lemma dispatch_Break_iff:
  "fst (dispatch nick r line w) = Break \<longleftrightarrow> r = - 2 \<or> r < 0 \<or> (r = 1 \<and> cstr line = ''/quit'')"
  by (auto simp: dispatch_def split: option.splits)

lemma scan_chunk_ret: "fst (scan_chunk sz tmp buf) = 0 \<or> fst (scan_chunk sz tmp buf) = 1"
  by (induction tmp arbitrary: buf) auto

lemma stdin_poll_line_posix_neg:
  "fst (stdin_poll_line_posix sz buf r) < 0 \<longleftrightarrow>
     (\<exists>err. r = Read_fail err \<and> err \<noteq> EWOULDBLOCK \<and> err \<noteq> EAGAIN)"
proof (cases r)
  case (Read_fail err)
  then show ?thesis by (simp add: stdin_poll_line_posix_def)
next
  case (Read_data bytes)
  then show ?thesis
    using scan_chunk_ret [of sz "take 128 bytes" buf]
    by (auto simp: stdin_poll_line_posix_def Let_def)
qed

lemma stdin_poll_line_win32_neg:
  "(fst (stdin_poll_line_win32 sz keys buf) < 0 \<longleftrightarrow>
      3 \<in> set (takeWhile (\<lambda>k. k \<noteq> 13 \<and> k \<noteq> 10) keys))
   \<and> (fst (stdin_poll_line_win32 sz keys buf) < 0 \<longleftrightarrow>
      fst (stdin_poll_line_win32 sz keys buf) = - 2)"
  by (induction sz keys buf rule: stdin_poll_line_win32.induct) auto

lemma poll_input_posix_neg:
  "fst (poll_input Posix w) < 0 \<longleftrightarrow>
     (\<exists>err rest. stdin_rd w = Read_fail err # rest \<and> err \<noteq> EWOULDBLOCK \<and> err \<noteq> EAGAIN)"
proof (cases "stdin_rd w")
  case Nil
  then have "fst (poll_input Posix w) = fst (stdin_poll_line_posix MAX_TEXT (linebuf w) (Read_fail EAGAIN))"
    by (simp add: poll_input_def split: prod.splits)
  then show ?thesis using Nil stdin_poll_line_posix_neg [of MAX_TEXT "linebuf w" "Read_fail EAGAIN"]
    by simp
next
  case (Cons x xs)
  then have "fst (poll_input Posix w) = fst (stdin_poll_line_posix MAX_TEXT (linebuf w) x)"
    by (simp add: poll_input_def split: prod.splits)
  then show ?thesis using Cons stdin_poll_line_posix_neg [of MAX_TEXT "linebuf w" x]
    by simp
qed

lemma poll_input_win32_neg:
  "(fst (poll_input Win32 w) < 0 \<longleftrightarrow>
      3 \<in> set (takeWhile (\<lambda>k. k \<noteq> 13 \<and> k \<noteq> 10) (console w)))
   \<and> (fst (poll_input Win32 w) < 0 \<longleftrightarrow> fst (poll_input Win32 w) = - 2)"
proof -
  have "fst (poll_input Win32 w) = fst (stdin_poll_line_win32 MAX_TEXT (console w) (linebuf w))"
    by (simp add: poll_input_def split: prod.splits)
  then show ?thesis
    using stdin_poll_line_win32_neg [of MAX_TEXT "console w" "linebuf w"] by auto
qed

section \<open>Claims about the receive helper\<close>

text \<open>
  C5 (as stated): under the flag-based strategy every zero-or-positive byte count is
  \<open>Received\<close>, so a zero-byte datagram is \<open>Received\<close> with zero bytes. The code returns 0
  for it, which is the "would block" value.
\<close>

theorem zero_byte_datagram_counterexample:
  "n_ret (udp_recvfrom_nb Posix (MAX_PKT - 1) (Recv_data 7 [])) = 0
   \<and> outcome (udp_recvfrom_nb Posix (MAX_PKT - 1) (Recv_data 7 [])) = WouldBlock
   \<and> outcome (udp_recvfrom_nb Posix (MAX_PKT - 1) (Recv_data 7 [])) \<noteq> Received 7 []"
  by (simp add: udp_recvfrom_nb_def outcome_def recv_ret_def MAX_PKT_def)

text \<open>
  C5 (amended): under the flag-based strategy, with a buffer of positive size,
  \<open>udp_recvfrom_nb\<close> maps a failed receive whose failure reason is "operation would
  block" to \<open>WouldBlock\<close>, any other failure to \<open>IoError\<close>, every positive received byte
  count to \<open>Received\<close>, and a zero-byte datagram to \<open>WouldBlock\<close>.
\<close>

theorem udp_recvfrom_nb_outcome:
  assumes "0 < buf_size"
  shows "outcome (udp_recvfrom_nb pf buf_size r) =
     (case r of
        Recv_fail err \<Rightarrow>
          if (case pf of Win32 \<Rightarrow> err = WSAEWOULDBLOCK
                       | Posix \<Rightarrow> err = EWOULDBLOCK \<or> err = EAGAIN)
          then WouldBlock else IoError
      | Recv_data sender payload \<Rightarrow>
          if payload = [] then WouldBlock
          else Received sender (take (nat buf_size) payload))"
  using assms
  by (cases r; cases pf)
    (auto simp: udp_recvfrom_nb_def outcome_def recv_ret_def Let_def)

theorem udp_recvfrom_nb_outcome_witness:
  "(0::int) < 767
   \<and> outcome (udp_recvfrom_nb Posix 767 (Recv_fail EAGAIN)) = WouldBlock
   \<and> outcome (udp_recvfrom_nb Posix 767 (Recv_fail 104)) = IoError
   \<and> outcome (udp_recvfrom_nb Win32 767 (Recv_fail WSAEWOULDBLOCK)) = WouldBlock
   \<and> outcome (udp_recvfrom_nb Posix 767 (Recv_data 7 ''OM1|bob|hi'')) = Received 7 ''OM1|bob|hi''"
  using udp_recvfrom_nb_outcome [of 767 Posix "Recv_fail EAGAIN"]
    udp_recvfrom_nb_outcome [of 767 Posix "Recv_fail 104"]
    udp_recvfrom_nb_outcome [of 767 Win32 "Recv_fail WSAEWOULDBLOCK"]
    udp_recvfrom_nb_outcome [of 767 Posix "Recv_data 7 ''OM1|bob|hi''"]
  by (simp add: EAGAIN_def EWOULDBLOCK_def)

text \<open>
  C10: in the poll-then-read branch, when the availability query itself fails
  (\<open>getsockopt\<close> returns nonzero), \<open>udp_recvfrom_nb\<close> returns 0, the "would block" value,
  and not an error; \<open>recvfrom\<close> is not called, and the result is the one of an idle
  socket (a successful query that reports no bytes).
\<close>

theorem human68k_query_failure_is_would_block:
  assumes "0 < buf_size" and "rc \<noteq> 0"
  shows "n_ret (udp_recvfrom_nb_human68k buf_size (rc, avail) r) = 0
         \<and> outcome (udp_recvfrom_nb_human68k buf_size (rc, avail) r) = WouldBlock
         \<and> calls (udp_recvfrom_nb_human68k buf_size (rc, avail) r) = [Call_getsockopt]
         \<and> udp_recvfrom_nb_human68k buf_size (rc, avail) r
             = udp_recvfrom_nb_human68k buf_size (0, 0) r"
  using assms by (simp add: udp_recvfrom_nb_human68k_def outcome_def recv_ret_def)

theorem human68k_query_failure_is_would_block_witness:
  "(0::int) < 767 \<and> (- 1::int) \<noteq> 0
   \<and> n_ret (udp_recvfrom_nb_human68k 767 (- 1, 12) (Recv_data 7 ''OM1|bob|hi'')) = 0
   \<and> outcome (udp_recvfrom_nb_human68k 767 (- 1, 12) (Recv_data 7 ''OM1|bob|hi'')) = WouldBlock
   \<and> calls (udp_recvfrom_nb_human68k 767 (- 1, 12) (Recv_data 7 ''OM1|bob|hi''))
       = [Call_getsockopt]"
proof -
  have a: "(0::int) < 767" and b: "(- 1::int) \<noteq> 0" by simp_all
  from human68k_query_failure_is_would_block [OF a b, of 12 "Recv_data 7 ''OM1|bob|hi''"]
  show ?thesis using a b by blast
qed

section \<open>Claims about the line input\<close>

lemma scan_chunk_after_LF:
  "LF \<notin> set pre \<Longrightarrow>
   scan_chunk out_size (pre @ LF # post) buf = scan_chunk out_size (pre @ [LF]) buf"
  by (induction pre arbitrary: buf) auto

text \<open>
  C6: the claim is that the bytes of a chunk after the line terminator stay in the
  accumulator for the next poll. The POSIX branch returns from inside the scanning loop
  and leaves them in the local \<open>tmp\<close>: when \<open>read\<close> delivers two lines at once, the
  first is emitted, the accumulator is empty afterwards, and the second line is lost
  (the next poll, with nothing more to read, reports no line). The Windows branch of the
  same function takes one key at a time and leaves the keys after the terminator in the
  console for the next poll.
\<close>

theorem stdin_poll_line_posix_drops_rest:
  "stdin_poll_line_posix MAX_TEXT [] (Read_data (''hi'' @ [LF] @ ''yo'' @ [LF])) = (1, ''hi'', [])
   \<and> stdin_poll_line_posix MAX_TEXT [] (Read_fail EAGAIN) = (0, [], [])
   \<and> stdin_poll_line_win32 MAX_TEXT [104, 105, 13, 121, 111, 13] []
       = (1, ''hi'', [], [121, 111, 13])"
  by code_simp

section \<open>Claims about the interaction loop\<close>

text \<open>
  C4 (as stated): in every iteration all queued datagrams are received, until
  \<open>udp_recvfrom_nb\<close> reports "would block", and rendered before the input poll. The drain
  loop also stops at a datagram of zero bytes and at a failed receive: below, a datagram
  is still queued when the typed line is sent.
\<close>

theorem drain_before_poll_counterexample:
  "main_iter Posix ''me''
     \<lparr>rxq = [Recv_data 1 [], Recv_data 2 ''OM1|bob|hi''],
      stdin_rd = [Read_data (''hello'' @ [LF])],
      console = [], linebuf = [], txrc = [], log = []\<rparr>
   = (Continue,
      \<lparr>rxq = [Recv_data 2 ''OM1|bob|hi''], stdin_rd = [],
       console = [], linebuf = [], txrc = [],
       log = [Polled 1, Sent ''OM1|me|hello'' 12, Prompt, Slept 10]\<rparr>)
   \<and> main_iter Posix ''me''
     \<lparr>rxq = [Recv_fail 104, Recv_data 2 ''OM1|bob|hi''],
      stdin_rd = [Read_data (''hello'' @ [LF])],
      console = [], linebuf = [], txrc = [], log = []\<rparr>
   = (Continue,
      \<lparr>rxq = [Recv_data 2 ''OM1|bob|hi''], stdin_rd = [],
       console = [], linebuf = [], txrc = [],
       log = [Recv_failed, Polled 1, Sent ''OM1|me|hello'' 12, Prompt, Slept 10]\<rparr>)"
  by code_simp

text \<open>
  C4 (amended): in every iteration the drain loop calls \<open>udp_recvfrom_nb\<close> until it returns
  zero (would block, or a datagram of zero bytes) or fails, and every non-empty datagram
  received before that is rendered before the single input poll of that iteration is
  serviced. With \<open>ds\<close> the non-empty datagrams at the head of the queue and \<open>stop\<close> the rest
  (empty, or starting with an answer on which \<open>udp_recvfrom_nb\<close> returns no positive
  count), the log of the iteration is: the renderings of all of \<open>ds\<close> in order, at most
  the report of a failed receive, the poll, and then only events of the input phase. In
  particular three queued non-empty datagrams are all rendered before a pending input line
  is processed.
\<close>

theorem drain_before_poll:
  assumes "\<forall>x \<in> set ds. snd x \<noteq> []"
    and "stop = [] \<or> n_ret (udp_recvfrom_nb pf (MAX_PKT - 1) (hd stop)) \<le> 0"
  shows "\<exists>pre r evs.
           log (snd (main_iter pf nick (w\<lparr>rxq := map (\<lambda>(a, d). Recv_data a d) ds @ stop\<rparr>)))
             = log w @ map (\<lambda>(a, d). render a (take (nat (MAX_PKT - 1)) d)) ds
                 @ pre @ Polled r # evs
           \<and> set pre \<subseteq> {Recv_failed}
           \<and> (\<forall>e \<in> set evs. input_event e)
           \<and> rxq (snd (main_iter pf nick (w\<lparr>rxq := map (\<lambda>(a, d). Recv_data a d) ds @ stop\<rparr>)))
               = tl stop"
proof -
  define w0 where "w0 = w\<lparr>rxq := map (\<lambda>(a, d). Recv_data a d) ds @ stop\<rparr>"
  define shown where "shown = map (\<lambda>(a, d). render a (take (nat (MAX_PKT - 1)) d)) ds"
  from drain_stop [OF assms(2)] obtain pre where
    pre: "drain pf stop = (pre, tl stop)" "set pre \<subseteq> {Recv_failed}" by blast
  have "drain pf (rxq w0) = (shown @ pre, tl stop)"
    using drain_data [OF assms(1), of pf stop] pre(1) by (simp add: w0_def shown_def)
  then have d: "log (drain_phase pf w0) = log w @ shown @ pre"
    "rxq (drain_phase pf w0) = tl stop"
    by (simp_all add: drain_phase_def w0_def)
  from poll_input_log [of pf "drain_phase pf w0"] obtain r line w2 where
    p: "poll_input pf (drain_phase pf w0) = (r, line, w2)"
    "log w2 = log (drain_phase pf w0) @ [Polled r]"
    "rxq w2 = rxq (drain_phase pf w0)" by blast
  from dispatch_log [of nick r line w2] obtain evs where
    e: "log (snd (dispatch nick r line w2)) = log w2 @ evs"
    "\<forall>e \<in> set evs. input_event e"
    "rxq (snd (dispatch nick r line w2)) = rxq w2" by blast
  have m: "main_iter pf nick w0 = dispatch nick r line w2"
    by (simp add: main_iter_def p(1))
  have "log (snd (main_iter pf nick w0)) = log w @ shown @ pre @ Polled r # evs"
    using m e(1) p(2) d(1) by simp
  moreover have "rxq (snd (main_iter pf nick w0)) = tl stop"
    using m e(3) p(3) d(2) by simp
  ultimately show ?thesis
    using pre(2) e(2) unfolding w0_def shown_def by blast
qed

theorem drain_before_poll_witness:
  "''OM1|bob|hi'' \<noteq> [] \<and> ''junk'' \<noteq> [] \<and> ''OM1|eve|x|y'' \<noteq> []
   \<and> (\<exists>pre r evs.
         log (snd (main_iter Posix ''me''
           (\<lparr>rxq = [], stdin_rd = [Read_data (''hello'' @ [LF])],
             console = [], linebuf = [], txrc = [], log = []\<rparr>
            \<lparr>rxq := map (\<lambda>(a, d). Recv_data a d)
                     [(1, ''OM1|bob|hi''), (2, ''junk''), (3, ''OM1|eve|x|y'')] @ []\<rparr>)))
         = map (\<lambda>(a, d). render a (take (nat (MAX_PKT - 1)) d))
               [(1, ''OM1|bob|hi''), (2, ''junk''), (3, ''OM1|eve|x|y'')]
             @ pre @ Polled r # evs
         \<and> set pre \<subseteq> {Recv_failed} \<and> (\<forall>e \<in> set evs. input_event e))
   \<and> log (snd (main_iter Posix ''me''
        \<lparr>rxq = [Recv_data 1 ''OM1|bob|hi'', Recv_data 2 ''junk'', Recv_data 3 ''OM1|eve|x|y''],
         stdin_rd = [Read_data (''hello'' @ [LF])],
         console = [], linebuf = [], txrc = [], log = []\<rparr>))
      = [Shown 1 ''bob'' ''hi'', Shown_raw 2 ''junk'', Shown 3 ''eve'' ''x|y'',
         Polled 1, Sent ''OM1|me|hello'' 12, Prompt, Slept 10]"
proof -
  have h: "\<forall>x \<in> set [(1::nat, ''OM1|bob|hi''), (2, ''junk''), (3, ''OM1|eve|x|y'')]. snd x \<noteq> []"
    by simp
  have ex: "\<exists>pre r evs.
         log (snd (main_iter Posix ''me''
           (\<lparr>rxq = [], stdin_rd = [Read_data (''hello'' @ [LF])],
             console = [], linebuf = [], txrc = [], log = []\<rparr>
            \<lparr>rxq := map (\<lambda>(a, d). Recv_data a d)
                     [(1, ''OM1|bob|hi''), (2, ''junk''), (3, ''OM1|eve|x|y'')] @ []\<rparr>)))
         = map (\<lambda>(a, d). render a (take (nat (MAX_PKT - 1)) d))
               [(1, ''OM1|bob|hi''), (2, ''junk''), (3, ''OM1|eve|x|y'')]
             @ pre @ Polled r # evs
         \<and> set pre \<subseteq> {Recv_failed} \<and> (\<forall>e \<in> set evs. input_event e)"
    using drain_before_poll [OF h, of "[]" Posix "''me''"
        "\<lparr>rxq = [], stdin_rd = [Read_data (''hello'' @ [LF])],
          console = [], linebuf = [], txrc = [], log = []\<rparr>"]
    by (simp del: map_append append_Nil2 list.map) blast
  have run: "log (snd (main_iter Posix ''me''
        \<lparr>rxq = [Recv_data 1 ''OM1|bob|hi'', Recv_data 2 ''junk'', Recv_data 3 ''OM1|eve|x|y''],
         stdin_rd = [Read_data (''hello'' @ [LF])],
         console = [], linebuf = [], txrc = [], log = []\<rparr>))
      = [Shown 1 ''bob'' ''hi'', Shown_raw 2 ''junk'', Shown 3 ''eve'' ''x|y'',
         Polled 1, Sent ''OM1|me|hello'' 12, Prompt, Slept 10]"
    by code_simp
  have ne: "''OM1|bob|hi'' \<noteq> [] \<and> ''junk'' \<noteq> [] \<and> ''OM1|eve|x|y'' \<noteq> []"
    by simp
  from ne ex run show ?thesis by (intro conjI) (simp_all only: simp_thms)
qed

text \<open>
  C7: an iteration leaves the loop exactly when the input poll returns \<open>-2\<close> (cancelled),
  another negative value (the input source failed), or a completed line that is the
  \<open>/quit\<close> command. What the socket answers and what \<open>sendto\<close> returns have no part in
  it: the decision is the same for every receive script and every script of send
  results. A failed receive is reported wherever the drain meets it: with \<open>ds\<close> the
  non-empty datagrams received first and \<open>stop\<close> the rest of the script (empty, or
  starting with an answer on which \<open>udp_recvfrom_nb\<close> returns no positive count), the
  log of the iteration is the renderings of \<open>ds\<close>, then the report exactly when the
  answer at the head of \<open>stop\<close> is a failure, then the input poll with the result the
  input source gives, then only events of the input phase; the answers after the failure
  stay queued for the next iteration.
  The poll is negative on POSIX exactly when \<open>read\<close> fails for a reason other than
  "would block", and on Windows exactly when Ctrl+C (key 3) is pending before the end of
  the line, where it is \<open>-2\<close>.
\<close>

theorem loop_exit_only_from_input:
  "(fst (main_iter pf nick w) = Break \<longleftrightarrow>
      (case poll_input pf w of
         (r, line, w2) \<Rightarrow> r = - 2 \<or> r < 0 \<or> (r = 1 \<and> cstr line = ''/quit'')))
   \<and> fst (main_iter pf nick (w\<lparr>rxq := q, txrc := t\<rparr>)) = fst (main_iter pf nick w)
   \<and> ((\<forall>x \<in> set ds. snd x \<noteq> [])
        \<and> (stop = [] \<or> n_ret (udp_recvfrom_nb pf (MAX_PKT - 1) (hd stop)) \<le> 0) \<longrightarrow>
        (\<exists>evs.
           log (snd (main_iter pf nick (w\<lparr>rxq := map (\<lambda>(a, d). Recv_data a d) ds @ stop\<rparr>)))
             = log w @ map (\<lambda>(a, d). render a (take (nat (MAX_PKT - 1)) d)) ds
                 @ (if stop \<noteq> [] \<and> n_ret (udp_recvfrom_nb pf (MAX_PKT - 1) (hd stop)) < 0
                    then [Recv_failed] else [])
                 @ Polled (fst (poll_input pf w)) # evs
           \<and> (\<forall>e \<in> set evs. input_event e)
           \<and> rxq (snd (main_iter pf nick (w\<lparr>rxq := map (\<lambda>(a, d). Recv_data a d) ds @ stop\<rparr>)))
               = tl stop))
   \<and> (fst (poll_input Posix w) < 0 \<longleftrightarrow>
        (\<exists>err rest. stdin_rd w = Read_fail err # rest
                     \<and> err \<noteq> EWOULDBLOCK \<and> err \<noteq> EAGAIN))
   \<and> (fst (poll_input Win32 w) < 0 \<longleftrightarrow>
        3 \<in> set (takeWhile (\<lambda>k. k \<noteq> 13 \<and> k \<noteq> 10) (console w)))
   \<and> (fst (poll_input Win32 w) < 0 \<longleftrightarrow> fst (poll_input Win32 w) = - 2)"
proof -
  have brk: "fst (main_iter pf nick v) = Break \<longleftrightarrow>
      (case poll_input pf v of
         (r, line, w2) \<Rightarrow> r = - 2 \<or> r < 0 \<or> (r = 1 \<and> cstr line = ''/quit''))" for v
  proof -
    have same: "fst (poll_input pf (drain_phase pf v)) = fst (poll_input pf v)"
      "fst (snd (poll_input pf (drain_phase pf v))) = fst (snd (poll_input pf v))"
      using poll_input_same [of "drain_phase pf v" v pf] drain_phase_fields [of pf v]
      by simp_all
    obtain r line w2 where a: "poll_input pf (drain_phase pf v) = (r, line, w2)"
      by (cases "poll_input pf (drain_phase pf v)")
    obtain r' line' w2' where b: "poll_input pf v = (r', line', w2')"
      by (cases "poll_input pf v")
    from same a b have "r' = r" "line' = line" by simp_all
    then show ?thesis
      by (simp add: main_iter_def a b dispatch_Break_iff)
  qed
  have indep: "fst (main_iter pf nick (w\<lparr>rxq := q, txrc := t\<rparr>)) = fst (main_iter pf nick w)"
  proof -
    have "fst (poll_input pf (w\<lparr>rxq := q, txrc := t\<rparr>)) = fst (poll_input pf w)"
      "fst (snd (poll_input pf (w\<lparr>rxq := q, txrc := t\<rparr>))) = fst (snd (poll_input pf w))"
      using poll_input_same [of "w\<lparr>rxq := q, txrc := t\<rparr>" w pf] by simp_all
    then have "(case poll_input pf (w\<lparr>rxq := q, txrc := t\<rparr>) of
                  (r, line, w2) \<Rightarrow> r = - 2 \<or> r < 0 \<or> (r = 1 \<and> cstr line = ''/quit''))
             = (case poll_input pf w of
                  (r, line, w2) \<Rightarrow> r = - 2 \<or> r < 0 \<or> (r = 1 \<and> cstr line = ''/quit''))"
      by (simp add: case_prod_beta)
    then show ?thesis
      using brk [of "w\<lparr>rxq := q, txrc := t\<rparr>"] brk [of w]
      by (cases "fst (main_iter pf nick (w\<lparr>rxq := q, txrc := t\<rparr>))";
          cases "fst (main_iter pf nick w)") simp_all
  qed
  have rep: "\<exists>evs.
           log (snd (main_iter pf nick (w\<lparr>rxq := map (\<lambda>(a, d). Recv_data a d) ds @ stop\<rparr>)))
             = log w @ map (\<lambda>(a, d). render a (take (nat (MAX_PKT - 1)) d)) ds
                 @ (if stop \<noteq> [] \<and> n_ret (udp_recvfrom_nb pf (MAX_PKT - 1) (hd stop)) < 0
                    then [Recv_failed] else [])
                 @ Polled (fst (poll_input pf w)) # evs
           \<and> (\<forall>e \<in> set evs. input_event e)
           \<and> rxq (snd (main_iter pf nick (w\<lparr>rxq := map (\<lambda>(a, d). Recv_data a d) ds @ stop\<rparr>)))
               = tl stop"
    if ne: "\<forall>x \<in> set ds. snd x \<noteq> []"
      and st: "stop = [] \<or> n_ret (udp_recvfrom_nb pf (MAX_PKT - 1) (hd stop)) \<le> 0"
  proof -
    define v where "v = w\<lparr>rxq := map (\<lambda>(a, d). Recv_data a d) ds @ stop\<rparr>"
    define shown where "shown = map (\<lambda>(a, d). render a (take (nat (MAX_PKT - 1)) d)) ds"
    define pre where
      "pre = (if stop \<noteq> [] \<and> n_ret (udp_recvfrom_nb pf (MAX_PKT - 1) (hd stop)) < 0
              then [Recv_failed] else [])"
    have "drain pf stop = (pre, tl stop)"
      unfolding pre_def by (rule drain_stop_exact [OF st])
    then have "drain pf (rxq v) = (shown @ pre, tl stop)"
      using drain_data [OF ne, of pf stop] by (simp add: v_def shown_def)
    then have d: "log (drain_phase pf v) = log w @ shown @ pre"
      "rxq (drain_phase pf v) = tl stop"
      by (simp_all add: drain_phase_def v_def)
    have "fst (poll_input pf (drain_phase pf v)) = fst (poll_input pf v)"
      using poll_input_same [of "drain_phase pf v" v pf] drain_phase_fields [of pf v]
      by simp
    moreover have "fst (poll_input pf v) = fst (poll_input pf w)"
      using poll_input_same [of v w pf] by (simp add: v_def)
    ultimately have same: "fst (poll_input pf (drain_phase pf v)) = fst (poll_input pf w)"
      by simp
    from poll_input_log [of pf "drain_phase pf v"] obtain r line w2 where
      p: "poll_input pf (drain_phase pf v) = (r, line, w2)"
      "log w2 = log (drain_phase pf v) @ [Polled r]"
      "rxq w2 = rxq (drain_phase pf v)" by blast
    have r: "r = fst (poll_input pf w)" using same p(1) by simp
    from dispatch_log [of nick r line w2] obtain evs where
      e: "log (snd (dispatch nick r line w2)) = log w2 @ evs"
      "\<forall>e \<in> set evs. input_event e"
      "rxq (snd (dispatch nick r line w2)) = rxq w2" by blast
    have m: "main_iter pf nick v = dispatch nick r line w2"
      by (simp add: main_iter_def p(1))
    have "log (snd (main_iter pf nick v))
            = log w @ shown @ pre @ Polled (fst (poll_input pf w)) # evs"
      using m e(1) p(2) d(1) r by simp
    moreover have "rxq (snd (main_iter pf nick v)) = tl stop"
      using m e(3) p(3) d(2) by simp
    ultimately show ?thesis
      using e(2) unfolding v_def shown_def pre_def by blast
  qed
  show ?thesis
    using brk [of w] indep rep poll_input_posix_neg [of w] poll_input_win32_neg [of w]
    by blast
qed

theorem loop_exit_only_from_input_witness:
  "n_ret (udp_recvfrom_nb Posix (MAX_PKT - 1) (Recv_fail 104)) < 0
   \<and> fst (main_iter Posix ''me''
        \<lparr>rxq = [Recv_fail 104], stdin_rd = [Read_data (''hello'' @ [LF])],
         console = [], linebuf = [], txrc = [- 1], log = []\<rparr>) \<noteq> Break
   \<and> fst (main_iter Posix ''me''
        \<lparr>rxq = [Recv_fail 104], stdin_rd = [Read_data (''/quit'' @ [LF])],
         console = [], linebuf = [], txrc = [- 1], log = []\<rparr>) = Break
   \<and> (\<exists>evs.
         log (snd (main_iter Posix ''me''
           (\<lparr>rxq = [], stdin_rd = [Read_data (''hello'' @ [LF])],
             console = [], linebuf = [], txrc = [- 1], log = []\<rparr>
            \<lparr>rxq := map (\<lambda>(a, d). Recv_data a d) [(1, ''OM1|bob|hi'')]
                     @ [Recv_fail 104, Recv_data 2 ''OM1|eve|yo'']\<rparr>)))
         = map (\<lambda>(a, d). render a (take (nat (MAX_PKT - 1)) d)) [(1, ''OM1|bob|hi'')]
             @ [Recv_failed] @ Polled 1 # evs
         \<and> (\<forall>e \<in> set evs. input_event e))
   \<and> main_iter Posix ''me''
        \<lparr>rxq = [Recv_data 1 ''OM1|bob|hi'', Recv_fail 104, Recv_data 2 ''OM1|eve|yo''],
         stdin_rd = [Read_data (''hello'' @ [LF])],
         console = [], linebuf = [], txrc = [- 1], log = []\<rparr>
       = (Continue,
          \<lparr>rxq = [Recv_data 2 ''OM1|eve|yo''], stdin_rd = [],
           console = [], linebuf = [], txrc = [],
           log = [Shown 1 ''bob'' ''hi'', Recv_failed, Polled 1,
                  Sent ''OM1|me|hello'' (- 1), Prompt, Slept 10]\<rparr>)"
proof -
  let ?W0 = "\<lparr>rxq = [], stdin_rd = [Read_data (''hello'' @ [LF])],
         console = [], linebuf = [], txrc = [- 1], log = []\<rparr>"
  let ?W1 = "\<lparr>rxq = [Recv_fail 104], stdin_rd = [Read_data (''hello'' @ [LF])],
         console = [], linebuf = [], txrc = [- 1], log = []\<rparr>"
  let ?W2 = "\<lparr>rxq = [Recv_fail 104], stdin_rd = [Read_data (''/quit'' @ [LF])],
         console = [], linebuf = [], txrc = [- 1], log = []\<rparr>"
  let ?stop = "[Recv_fail 104, Recv_data 2 ''OM1|eve|yo'']"
  have p1: "(case poll_input Posix ?W1 of
               (r, line, w2) \<Rightarrow> r = - 2 \<or> r < 0 \<or> (r = 1 \<and> cstr line = ''/quit'')) = False"
    by code_simp
  have p2: "(case poll_input Posix ?W2 of
               (r, line, w2) \<Rightarrow> r = - 2 \<or> r < 0 \<or> (r = 1 \<and> cstr line = ''/quit'')) = True"
    by code_simp
  have n: "n_ret (udp_recvfrom_nb Posix (MAX_PKT - 1) (Recv_fail 104)) < 0"
    by code_simp
  have h1: "\<forall>x \<in> set [(1::nat, ''OM1|bob|hi'')]. snd x \<noteq> []"
    by simp
  have h2: "?stop = [] \<or> n_ret (udp_recvfrom_nb Posix (MAX_PKT - 1) (hd ?stop)) \<le> 0"
    using n by simp
  have pre: "(if ?stop \<noteq> [] \<and> n_ret (udp_recvfrom_nb Posix (MAX_PKT - 1) (hd ?stop)) < 0
              then [Recv_failed] else []) = [Recv_failed]"
    using n by simp
  have r: "fst (poll_input Posix ?W0) = 1"
    by code_simp
  have rep: "\<exists>evs.
         log (snd (main_iter Posix ''me''
           (?W0\<lparr>rxq := map (\<lambda>(a, d). Recv_data a d) [(1, ''OM1|bob|hi'')] @ ?stop\<rparr>)))
         = map (\<lambda>(a, d). render a (take (nat (MAX_PKT - 1)) d)) [(1, ''OM1|bob|hi'')]
             @ [Recv_failed] @ Polled 1 # evs
         \<and> (\<forall>e \<in> set evs. input_event e)"
    using loop_exit_only_from_input [where pf = Posix and nick = "''me''" and w = ?W0
        and ds = "[(1, ''OM1|bob|hi'')]" and stop = ?stop,
        THEN conjunct2, THEN conjunct2, THEN conjunct1, THEN mp, OF conjI [OF h1 h2]]
    unfolding pre r by (simp del: map_append append_Nil2 list.map) blast
  have run: "main_iter Posix ''me''
        \<lparr>rxq = [Recv_data 1 ''OM1|bob|hi'', Recv_fail 104, Recv_data 2 ''OM1|eve|yo''],
         stdin_rd = [Read_data (''hello'' @ [LF])],
         console = [], linebuf = [], txrc = [- 1], log = []\<rparr>
       = (Continue,
          \<lparr>rxq = [Recv_data 2 ''OM1|eve|yo''], stdin_rd = [],
           console = [], linebuf = [], txrc = [],
           log = [Shown 1 ''bob'' ''hi'', Recv_failed, Polled 1,
                  Sent ''OM1|me|hello'' (- 1), Prompt, Slept 10]\<rparr>)"
    by code_simp
  have "fst (main_iter Posix ''me'' ?W1) \<noteq> Break"
    by (simp only: loop_exit_only_from_input [of Posix "''me''" ?W1, THEN conjunct1] p1
        simp_thms)
  moreover have "fst (main_iter Posix ''me'' ?W2) = Break"
    by (simp only: loop_exit_only_from_input [of Posix "''me''" ?W2, THEN conjunct1] p2
        simp_thms)
  ultimately show ?thesis using n rep run by (intro conjI) (simp_all only: simp_thms)
qed

end
